theory Spec2Isabelle
  imports Main "HOL-Library.AList" "HOL-Library.Sublist"
begin

section \<open>Python values of the module\<close>

text \<open>
  The module \<^verbatim>\<open>plugins/modules/dellemc_powermax_host.py\<close> receives its
  \<^verbatim>\<open>host_flags\<close> parameter as a YAML dictionary, so a flag's value is any
  scalar the playbook wrote: a boolean, a string, an integer or null.
\<close>

datatype raw_value = PyBool bool | PyStr string | PyInt int | PyNone

text \<open>
  A Python \<^verbatim>\<open>dict\<close> keeps its keys distinct and in insertion order; it is an
  association list here, read with \<^const>\<open>map_of\<close> and written with
  \<^const>\<open>AList.update\<close> (which overwrites in place or appends, as
  \<^verbatim>\<open>d[k] = v\<close> does).
\<close>

type_synonym 'v dict = "(string \<times> 'v) list"

text \<open>\<^verbatim>\<open>v in ['a', 'b']\<close>: membership by \<^verbatim>\<open>==\<close>; a boolean, an
  integer or None equals no string.\<close>

definition py_in :: "raw_value \<Rightarrow> string list \<Rightarrow> bool" where
  "py_in v xs = (case v of PyStr s \<Rightarrow> s \<in> set xs | _ \<Rightarrow> False)"

text \<open>\<^verbatim>\<open>str.lower()\<close> on ASCII text: the letters A..Z go to a..z, every
  other character stays. A character here is a byte, so a cased letter outside ASCII,
  which Python would fold, stays as it is; the nine names of the module are ASCII.\<close>

definition char_lower :: "char \<Rightarrow> char" where
  "char_lower c =
     (case map_of (zip ''ABCDEFGHIJKLMNOPQRSTUVWXYZ'' ''abcdefghijklmnopqrstuvwxyz'') c of
        Some l \<Rightarrow> l
      | None \<Rightarrow> c)"

definition lower :: "string \<Rightarrow> string" where
  "lower s = map char_lower s"

section \<open>The flag dictionary sent to the array\<close>

text \<open>
  A value of the payload dictionary is either the two-field dictionary
  \<^verbatim>\<open>{'enabled': e, 'override': o}\<close> of a port flag or the plain boolean of
  \<^verbatim>\<open>consistent_lun\<close>.
\<close>

datatype flag_entry = Flag_dict (enabled: bool) (override: bool) | Flag_bool bool

abbreviation Enabled :: flag_entry where "Enabled \<equiv> Flag_dict True True"
abbreviation Disabled :: flag_entry where "Disabled \<equiv> Flag_dict False True"
abbreviation Default :: flag_entry where "Default \<equiv> Flag_dict False False"

text \<open>\<^verbatim>\<open>self.host_flags_list\<close> (a Python set; its eight names are written in
  the source's order).\<close>

definition host_flags_list :: "string list" where
  "host_flags_list =
     [''volume_set_addressing'', ''environ_set'', ''disable_q_reset_on_ua'', ''openvms'',
      ''avoid_reset_broadcast'', ''scsi_3'', ''spc2_protocol_version'', ''scsi_support1'']"

text \<open>The private helpers \<^verbatim>\<open>_set_to_enable\<close>, \<^verbatim>\<open>_set_to_disable\<close>,
  \<^verbatim>\<open>_set_to_default\<close>, \<^verbatim>\<open>_disable_consistent_lun\<close> and
  \<^verbatim>\<open>_enable_consistent_lun\<close> (an identifier cannot start with an underscore
  here); each mutates the dictionary it is given, so each returns the new one.\<close>

definition set_to_enable :: "string \<Rightarrow> flag_entry dict \<Rightarrow> flag_entry dict" where
  "set_to_enable host_flag_name host_flag_dict =
     AList.update (lower host_flag_name) (Flag_dict True True) host_flag_dict"

definition set_to_disable :: "string \<Rightarrow> flag_entry dict \<Rightarrow> flag_entry dict" where
  "set_to_disable host_flag_name host_flag_dict =
     AList.update (lower host_flag_name) (Flag_dict False True) host_flag_dict"

definition set_to_default :: "string \<Rightarrow> flag_entry dict \<Rightarrow> flag_entry dict" where
  "set_to_default host_flag_name host_flag_dict =
     AList.update (lower host_flag_name) (Flag_dict False False) host_flag_dict"

definition disable_consistent_lun :: "flag_entry dict \<Rightarrow> flag_entry dict" where
  "disable_consistent_lun host_flag_dict =
     AList.update ''consistent_lun'' (Flag_bool False) host_flag_dict"

definition enable_consistent_lun :: "flag_entry dict \<Rightarrow> flag_entry dict" where
  "enable_consistent_lun host_flag_dict =
     AList.update ''consistent_lun'' (Flag_bool True) host_flag_dict"

subsection \<open>The create path: \<^verbatim>\<open>_create_host_flags_dict\<close>\<close>

text \<open>One round of the loop over \<^verbatim>\<open>self.host_flags_list\<close>.\<close>

definition create_flag_step ::
  "raw_value dict \<Rightarrow> string \<Rightarrow> flag_entry dict \<Rightarrow> flag_entry dict" where
  "create_flag_step received_host_flags host_flag_name new_host_flags_dict =
     (case map_of received_host_flags host_flag_name of
        None \<Rightarrow> set_to_default host_flag_name new_host_flags_dict
      | Some v \<Rightarrow>
          if py_in v [''unset'', ''Unset''] then
            set_to_default host_flag_name new_host_flags_dict
          else if v = PyBool False \<or> py_in v [''false'', ''False''] then
            set_to_disable host_flag_name new_host_flags_dict
          else set_to_enable host_flag_name new_host_flags_dict)"

definition create_host_flags_dict ::
  "raw_value dict \<Rightarrow> flag_entry dict \<Rightarrow> flag_entry dict" where
  "create_host_flags_dict received_host_flags new_host_flags_dict =
     (let d = fold (create_flag_step received_host_flags) host_flags_list new_host_flags_dict
      in case map_of received_host_flags ''consistent_lun'' of
           None \<Rightarrow> disable_consistent_lun d
         | Some v \<Rightarrow>
             if v = PyBool False \<or> py_in v [''unset'', ''Unset'', ''false'', ''False'']
             then disable_consistent_lun d
             else enable_consistent_lun d)"

subsection \<open>The modify path: the overlay loop of \<^verbatim>\<open>modify_host_flags\<close>\<close>

text \<open>One round of \<^verbatim>\<open>for flag in received_host_flags\<close>; \<open>v\<close> is
  \<^verbatim>\<open>received_host_flags[flag]\<close>.\<close>

definition overlay_step ::
  "string \<times> raw_value \<Rightarrow> flag_entry dict \<Rightarrow> flag_entry dict" where
  "overlay_step kv new_flags_dict =
     (case kv of (flag, v) \<Rightarrow>
        if flag \<noteq> ''consistent_lun'' then
          (if v = PyBool True \<or> py_in v [''True'', ''true''] then
             set_to_enable flag new_flags_dict
           else if v = PyBool False \<or> py_in v [''false'', ''False''] then
             set_to_disable flag new_flags_dict
           else set_to_default flag new_flags_dict)
        else if v = PyBool False \<or> py_in v [''False'', ''false'', ''unset'', ''Unset''] then
          disable_consistent_lun new_flags_dict
        else enable_consistent_lun new_flags_dict)"

text \<open>The loop, started on the deep copy of \<^verbatim>\<open>current_flags\<close>.\<close>

definition overlay_flags ::
  "raw_value dict \<Rightarrow> flag_entry dict \<Rightarrow> flag_entry dict" where
  "overlay_flags received_host_flags current_flags =
     fold overlay_step received_host_flags current_flags"

section \<open>Initiator lists\<close>

text \<open>
  \<^verbatim>\<open>_get_add_initiators\<close> and \<^verbatim>\<open>_get_remove_initiators\<close> return
  \<^verbatim>\<open>list(set(...))\<close>: a list without duplicates whose order Python leaves
  open, so the value kept here is the set.
\<close>

definition get_add_initiators :: "string list \<Rightarrow> string list \<Rightarrow> string set" where
  "get_add_initiators existing requested =
     (let all_inits = existing @ requested in set all_inits - set existing)"

definition get_remove_initiators :: "string list \<Rightarrow> string list \<Rightarrow> string set" where
  "get_remove_initiators existing requested = set existing \<inter> set requested"

section \<open>The array's report of a host\<close>

text \<open>
  The dictionary \<^verbatim>\<open>provisioning.get_host\<close> returns, with the keys the module
  reads. The module tests \<^verbatim>\<open>'initiator' in host\<close>, so that key may be
  missing; the flag reports are comma-separated text.
\<close>

record host =
  hostId :: string
  initiator :: "string list option"
  enabled_flags :: string
  disabled_flags :: string
  consistent_lun :: bool

text \<open>\<^verbatim>\<open>s.split(',')\<close>: the pieces between the commas, empty pieces kept
  (\<^verbatim>\<open>''.split(',') == ['']\<close>).\<close>

fun split_comma :: "string \<Rightarrow> string list" where
  "split_comma [] = [[]]"
| "split_comma (c # cs) =
     (if c = CHR '','' then [] # split_comma cs
      else (case split_comma cs of
              w # ws \<Rightarrow> (c # w) # ws
            | [] \<Rightarrow> [[c]]))"

text \<open>
  \<^verbatim>\<open>re.sub(r'\(.*?\)', '', flag)\<close>. A match starts at an opening parenthesis
  and, the quantifier being lazy, ends at the first closing parenthesis after it; the
  dot matches no newline, so a newline before that parenthesis makes the match fail
  at this position. \<open>find_close\<close> returns the text after the closing parenthesis.
\<close>

fun find_close :: "string \<Rightarrow> string option" where
  "find_close [] = None"
| "find_close (c # cs) =
     (if c = CHR '')'' then Some cs
      else if c = CHR 0x0A then None
      else find_close cs)"

lemma find_close_shorter: "find_close cs = Some rest \<Longrightarrow> length rest < Suc (length cs)"
  by (induction cs) (auto split: if_splits)

function re_sub_parens :: "string \<Rightarrow> string" where
  "re_sub_parens [] = []"
| "re_sub_parens (c # cs) =
     (if c = CHR ''('' then
        (case find_close cs of
           Some rest \<Rightarrow> re_sub_parens rest
         | None \<Rightarrow> c # re_sub_parens cs)
      else c # re_sub_parens cs)"
  by pat_completeness auto
termination
  by (relation "measure length") (auto dest: find_close_shorter)

text \<open>\<^verbatim>\<open>_create_default_host_flags_dict\<close> and
  \<^verbatim>\<open>_recreate_host_flag_dict\<close>.\<close>

definition create_default_host_flags_dict :: "flag_entry dict \<Rightarrow> flag_entry dict" where
  "create_default_host_flags_dict current_flags =
     disable_consistent_lun (fold set_to_default host_flags_list current_flags)"

definition recreate_host_flag_dict :: "host \<Rightarrow> flag_entry dict \<Rightarrow> flag_entry dict" where
  "recreate_host_flag_dict h current_flags =
     (let d0 = create_default_host_flags_dict current_flags;
          d1 = fold (\<lambda>flag d. if length flag > 0 then set_to_enable (re_sub_parens flag) d else d)
                 (split_comma (enabled_flags h)) d0;
          d2 = fold (\<lambda>flag d. if length flag > 0 then set_to_disable (re_sub_parens flag) d else d)
                 (split_comma (disabled_flags h)) d1
      in if consistent_lun h = False then disable_consistent_lun d2
         else enable_consistent_lun d2)"

text \<open>
  The keys the two loops of \<^verbatim>\<open>_recreate_host_flag_dict\<close> write for a
  report: of each non-empty piece between commas, the text left after the
  substitution, in lower case.
\<close>

definition reported_names :: "string \<Rightarrow> string set" where
  "reported_names txt =
     set (map (\<lambda>flag. lower (re_sub_parens flag))
            (filter (\<lambda>flag. length flag > 0) (split_comma txt)))"

text \<open>\<^verbatim>\<open>new_flags_dict == current_flags\<close>: two dictionaries are equal when
  they hold the same keys with the same values, in whatever order.\<close>

definition py_dict_eq :: "flag_entry dict \<Rightarrow> flag_entry dict \<Rightarrow> bool" where
  "py_dict_eq a b =
     (list_all (\<lambda>kv. map_of b (fst kv) = Some (snd kv)) a \<and>
      list_all (\<lambda>kv. map_of a (fst kv) = Some (snd kv)) b)"

section \<open>The management endpoint\<close>

text \<open>
  The PyU4V connection is not part of the module: it is a parameter here. A call
  either raises (the text is \<^verbatim>\<open>str(e)\<close>) or returns; \<^verbatim>\<open>get_host\<close>
  returns a host dictionary or a falsy value (\<open>None\<close>), and what the other calls
  return is never read. Every call and its reply is appended to the session's log, so
  that a theorem can say which calls a run issued.
\<close>

datatype call =
    Get_host string
  | Create_host string "string list option" "flag_entry dict option"
  | Modify_host_add_init_list string "string set"
  | Modify_host_remove_init_list string "string set"
  | Modify_host_flag_dict string "flag_entry dict"
  | Modify_host_new_name string string
  | Delete_host string
  | Close_connection

datatype reply = Raised string | Returned "host option"

type_synonym 'w remote = "call \<Rightarrow> 'w \<Rightarrow> reply \<times> 'w"

record 'w session =
  log :: "(call \<times> reply) list"
  world :: 'w

definition invoke :: "'w remote \<Rightarrow> call \<Rightarrow> 'w session \<Rightarrow> reply \<times> 'w session" where
  "invoke R c s =
     (case R c (world s) of (r, w') \<Rightarrow> (r, \<lparr>log = log s @ [(c, r)], world = w'\<rparr>))"

section \<open>The module's parameters and its exits\<close>

datatype existence = Present | Absent

datatype initiator_state_choice = Present_in_host | Absent_in_host

record params =
  host_name :: string
  initiators :: "string list option"
  state :: existence
  initiator_state :: "initiator_state_choice option"
  host_flags :: "raw_value dict option"
  new_name :: "string option"

text \<open>
  The message given to \<^verbatim>\<open>fail_json\<close>: \<^verbatim>\<open>create_host\<close> formats a
  string, the other operations pass the tuple of the format string and its arguments
  unformatted.
\<close>

datatype msg_part = Part_str string | Part_list "string set"

datatype msg = Msg_str string | Msg_tuple "msg_part list"

text \<open>
  A method returns a value, or the process ends: \<^verbatim>\<open>fail_json\<close> exits
  with the message, and an exception nothing catches ends the run with a traceback.
\<close>

datatype 'a outcome = Return 'a | Fail_json msg | Uncaught string

definition and_then ::
  "'a outcome \<times> 's \<Rightarrow> ('a \<Rightarrow> 's \<Rightarrow> 'b outcome \<times> 's) \<Rightarrow> 'b outcome \<times> 's" where
  "and_then r k =
     (case r of
        (Return v, s) \<Rightarrow> k v s
      | (Fail_json m, s) \<Rightarrow> (Fail_json m, s)
      | (Uncaught e, s) \<Rightarrow> (Uncaught e, s))"

text \<open>\<^verbatim>\<open>result['host_details']\<close>: the empty dictionary, or what the last
  \<^verbatim>\<open>get_host\<close> returned (a host or \<open>None\<close>).\<close>

datatype host_details = Empty_dict | Fetched "host option"

section \<open>The operations of \<^verbatim>\<open>PowerMaxHost\<close>\<close>

definition get_host :: "'w remote \<Rightarrow> string \<Rightarrow> 'w session \<Rightarrow> host option \<times> 'w session" where
  "get_host R name s =
     (case invoke R (Get_host name) s of
        (Raised e, s') \<Rightarrow> (None, s')
      | (Returned hostFromGet, s') \<Rightarrow> (hostFromGet, s'))"

text \<open>\<^verbatim>\<open>show_error_exit\<close>: the connection is closed, a failure of that only
  logged, and \<^verbatim>\<open>fail_json\<close> ends the run.\<close>

definition show_error_exit :: "'w remote \<Rightarrow> msg \<Rightarrow> 'w session \<Rightarrow> 'a outcome \<times> 'w session" where
  "show_error_exit R m s = (case invoke R Close_connection s of (r, s') \<Rightarrow> (Fail_json m, s'))"

definition create_host :: "'w remote \<Rightarrow> params \<Rightarrow> string \<Rightarrow> 'w session \<Rightarrow> bool outcome \<times> 'w session" where
  "create_host R p name s =
     (let inits = (if initiator_state p = Some Absent_in_host \<or> initiator_state p = None
                   then None else initiators p);
          new_host_flags_dict =
            (case host_flags p of
               Some received_host_flags \<Rightarrow>
                 if received_host_flags \<noteq> []
                 then Some (create_host_flags_dict received_host_flags [])
                 else None
             | None \<Rightarrow> None)
      in case invoke R (Create_host name inits new_host_flags_dict) s of
           (Raised e, s') \<Rightarrow>
             show_error_exit R
               (Msg_str (''Create host '' @ name @ '' failed with error '' @ e)) s'
         | (Returned x, s') \<Rightarrow> (Return True, s'))"

definition existing_inits_of :: "host option \<Rightarrow> string list" where
  "existing_inits_of h =
     (case h of
        Some x \<Rightarrow> (case initiator x of Some l \<Rightarrow> l | None \<Rightarrow> [])
      | None \<Rightarrow> [])"

definition add_host_initiators ::
  "'w remote \<Rightarrow> string \<Rightarrow> string list \<Rightarrow> 'w session \<Rightarrow> bool outcome \<times> 'w session" where
  "add_host_initiators R name inits s =
     (case get_host R name s of (h, s1) \<Rightarrow>
        let existing_inits = existing_inits_of h in
        if inits \<noteq> [] \<and> set inits \<subseteq> set existing_inits then (Return False, s1)
        else
          let add_list = get_add_initiators existing_inits inits in
          if add_list \<noteq> {} then
            (case invoke R (Modify_host_add_init_list name add_list) s1 of
               (Raised e, s2) \<Rightarrow>
                 show_error_exit R
                   (Msg_tuple [Part_str ''Adding initiators %s to host %s failed witherror %s'',
                               Part_list add_list, Part_str name, Part_str e]) s2
             | (Returned x, s2) \<Rightarrow> (Return True, s2))
          else (Return False, s1))"

definition remove_host_initiators ::
  "'w remote \<Rightarrow> string \<Rightarrow> string list \<Rightarrow> 'w session \<Rightarrow> bool outcome \<times> 'w session" where
  "remove_host_initiators R name inits s =
     (case get_host R name s of (h, s1) \<Rightarrow>
        let existing_inits = existing_inits_of h in
        if existing_inits = [] then (Return False, s1)
        else
          let remove_list = get_remove_initiators existing_inits inits in
          if remove_list \<noteq> {} then
            (case invoke R (Modify_host_remove_init_list name remove_list) s1 of
               (Raised e, s2) \<Rightarrow>
                 show_error_exit R
                   (Msg_tuple [Part_str ''Removing initiators %s from host %s failed with error %s'',
                               Part_list remove_list, Part_str name, Part_str e]) s2
             | (Returned x, s2) \<Rightarrow> (Return True, s2))
          else (Return False, s1))"

definition rename_host ::
  "'w remote \<Rightarrow> string \<Rightarrow> string \<Rightarrow> 'w session \<Rightarrow> bool outcome \<times> 'w session" where
  "rename_host R name nn s =
     (case invoke R (Modify_host_new_name name nn) s of
        (Raised e, s') \<Rightarrow>
          show_error_exit R
            (Msg_tuple [Part_str ''Renaming of host %s failed with error %s'',
                        Part_str name, Part_str e]) s'
      | (Returned x, s') \<Rightarrow> (Return True, s'))"

text \<open>\<^verbatim>\<open>modify_host_flags\<close>. When the fetch returns \<open>None\<close>,
  \<^verbatim>\<open>host['enabled_flags']\<close> raises a TypeError that nothing catches.\<close>

definition modify_host_flags ::
  "'w remote \<Rightarrow> string \<Rightarrow> raw_value dict \<Rightarrow> 'w session \<Rightarrow> bool outcome \<times> 'w session" where
  "modify_host_flags R name received_host_flags s =
     (case get_host R name s of
        (None, s1) \<Rightarrow> (Uncaught ''TypeError'', s1)
      | (Some h, s1) \<Rightarrow>
          let current_flags = recreate_host_flag_dict h [];
              new_flags_dict = overlay_flags received_host_flags current_flags
          in if py_dict_eq new_flags_dict current_flags then (Return False, s1)
             else
               (case invoke R (Modify_host_flag_dict name new_flags_dict) s1 of
                  (Raised e, s2) \<Rightarrow>
                    show_error_exit R
                      (Msg_tuple [Part_str ''Modify host %s failed with error %s'',
                                  Part_str name, Part_str e]) s2
                | (Returned x, s2) \<Rightarrow> (Return True, s2)))"

definition delete_host :: "'w remote \<Rightarrow> string \<Rightarrow> 'w session \<Rightarrow> bool outcome \<times> 'w session" where
  "delete_host R name s =
     (case invoke R (Delete_host name) s of
        (Raised e, s') \<Rightarrow>
          show_error_exit R
            (Msg_tuple [Part_str ''Delete host %s failed with error %s'',
                        Part_str name, Part_str e]) s'
      | (Returned x, s') \<Rightarrow> (Return True, s'))"

text \<open>\<^verbatim>\<open>_create_result_dict\<close>: the pair is
  \<^verbatim>\<open>(result['changed'], result['host_details'])\<close>.\<close>

definition create_result_dict ::
  "'w remote \<Rightarrow> params \<Rightarrow> bool \<Rightarrow> 'w session \<Rightarrow> (bool \<times> host_details) \<times> 'w session" where
  "create_result_dict R p changed s =
     (if state p = Absent then ((changed, Empty_dict), s)
      else if new_name p \<noteq> None \<and> new_name p \<noteq> Some [] then
        (case get_host R (the (new_name p)) s of (h, s') \<Rightarrow> ((changed, Fetched h), s'))
      else
        (case get_host R (host_name p) s of (h, s') \<Rightarrow> ((changed, Fetched h), s')))"

section \<open>\<^verbatim>\<open>perform_module_operation\<close>\<close>

text \<open>
  The six guarded steps, in the source's order. \<open>h\<close> is the host fetched once
  at the start of the run, \<open>changed\<close> the accumulator.
\<close>

definition truthy_list :: "string list option \<Rightarrow> bool" where
  "truthy_list l = (case l of Some xs \<Rightarrow> xs \<noteq> [] | None \<Rightarrow> False)"

definition step_create ::
  "'w remote \<Rightarrow> params \<Rightarrow> host option \<Rightarrow> bool \<Rightarrow> 'w session \<Rightarrow> bool outcome \<times> 'w session" where
  "step_create R p h changed s =
     (if state p = Present \<and> h = None \<and> host_name p \<noteq> []
      then create_host R p (host_name p) s
      else (Return changed, s))"

definition step_add ::
  "'w remote \<Rightarrow> params \<Rightarrow> host option \<Rightarrow> bool \<Rightarrow> 'w session \<Rightarrow> bool outcome \<times> 'w session" where
  "step_add R p h changed s =
     (if state p = Present \<and> h \<noteq> None \<and> initiator_state p = Some Present_in_host
         \<and> truthy_list (initiators p)
      then and_then (add_host_initiators R (host_name p) (the (initiators p)) s)
             (\<lambda>r s'. (Return (r \<or> changed), s'))
      else (Return changed, s))"

definition step_remove ::
  "'w remote \<Rightarrow> params \<Rightarrow> host option \<Rightarrow> bool \<Rightarrow> 'w session \<Rightarrow> bool outcome \<times> 'w session" where
  "step_remove R p h changed s =
     (if state p = Present \<and> h \<noteq> None \<and> initiator_state p = Some Absent_in_host
         \<and> truthy_list (initiators p)
      then and_then (remove_host_initiators R (host_name p) (the (initiators p)) s)
             (\<lambda>r s'. (Return (r \<or> changed), s'))
      else (Return changed, s))"

definition step_flags ::
  "'w remote \<Rightarrow> params \<Rightarrow> host option \<Rightarrow> bool \<Rightarrow> 'w session \<Rightarrow> bool outcome \<times> 'w session" where
  "step_flags R p h changed s =
     (if state p = Present \<and> h \<noteq> None \<and> host_flags p \<noteq> None \<and> host_flags p \<noteq> Some []
      then and_then (modify_host_flags R (host_name p) (the (host_flags p)) s)
             (\<lambda>r s'. (Return (r \<or> changed), s'))
      else (Return changed, s))"

definition step_rename ::
  "'w remote \<Rightarrow> params \<Rightarrow> host option \<Rightarrow> bool \<Rightarrow> 'w session \<Rightarrow> bool outcome \<times> 'w session" where
  "step_rename R p h changed s =
     (if state p = Present \<and> h \<noteq> None \<and> new_name p \<noteq> None \<and> new_name p \<noteq> Some []
         \<and> hostId (the h) \<noteq> the (new_name p)
      then rename_host R (host_name p) (the (new_name p)) s
      else (Return changed, s))"

definition step_delete ::
  "'w remote \<Rightarrow> params \<Rightarrow> host option \<Rightarrow> bool \<Rightarrow> 'w session \<Rightarrow> bool outcome \<times> 'w session" where
  "step_delete R p h changed s =
     (if state p = Absent \<and> h \<noteq> None
      then and_then (delete_host R (host_name p) s)
             (\<lambda>r s'. (Return (r \<or> changed), s'))
      else (Return changed, s))"

text \<open>The tail of the run: the result, the close of the connection (outside any
  \<^verbatim>\<open>try\<close>) and \<^verbatim>\<open>exit_json\<close>.\<close>

definition finish ::
  "'w remote \<Rightarrow> params \<Rightarrow> bool \<Rightarrow> 'w session \<Rightarrow> (bool \<times> host_details) outcome \<times> 'w session" where
  "finish R p changed s =
     (case create_result_dict R p changed s of (res, s1) \<Rightarrow>
        (case invoke R Close_connection s1 of
           (Raised e, s2) \<Rightarrow> (Uncaught e, s2)
         | (Returned x, s2) \<Rightarrow> (Return res, s2)))"

definition perform_module_operation ::
  "'w remote \<Rightarrow> params \<Rightarrow> 'w session \<Rightarrow> (bool \<times> host_details) outcome \<times> 'w session" where
  "perform_module_operation R p s =
     (case get_host R (host_name p) s of (h, s0) \<Rightarrow>
        and_then (step_create R p h False s0) (\<lambda>changed s1.
        and_then (step_add R p h changed s1) (\<lambda>changed s2.
        and_then (step_remove R p h changed s2) (\<lambda>changed s3.
        and_then (step_flags R p h changed s3) (\<lambda>changed s4.
        and_then (step_rename R p h changed s4) (\<lambda>changed s5.
        and_then (step_delete R p h changed s5) (\<lambda>changed s6.
        finish R p changed s6)))))))"

text \<open>
  An endpoint that answers from a script: each call takes the next reply, and a call
  past the end of the script returns \<open>None\<close>. It instantiates the theorems below
  at concrete runs.
\<close>

fun scripted :: "reply list remote" where
  "scripted c [] = (Returned None, [])"
| "scripted c (r # rs) = (r, rs)"

section \<open>What a failed mutation reports\<close>

text \<open>The calls that change the array.\<close>

fun is_mutation :: "call \<Rightarrow> bool" where
  "is_mutation (Get_host n) = False"
| "is_mutation Close_connection = False"
| "is_mutation c = True"

fun call_host :: "call \<Rightarrow> string" where
  "call_host (Get_host n) = n"
| "call_host (Create_host n i f) = n"
| "call_host (Modify_host_add_init_list n l) = n"
| "call_host (Modify_host_remove_init_list n l) = n"
| "call_host (Modify_host_flag_dict n d) = n"
| "call_host (Modify_host_new_name n nn) = n"
| "call_host (Delete_host n) = n"
| "call_host Close_connection = []"

text \<open>
  The message each operation gives to \<^verbatim>\<open>show_error_exit\<close> when its call
  raises \<open>e\<close>, collected from the six \<^verbatim>\<open>except\<close> blocks (the two calls that
  are no mutation have no such block; the empty message stands there).
\<close>

fun failure_msg :: "call \<Rightarrow> string \<Rightarrow> msg" where
  "failure_msg (Create_host n i f) e =
     Msg_str (''Create host '' @ n @ '' failed with error '' @ e)"
| "failure_msg (Modify_host_add_init_list n l) e =
     Msg_tuple [Part_str ''Adding initiators %s to host %s failed witherror %s'',
                Part_list l, Part_str n, Part_str e]"
| "failure_msg (Modify_host_remove_init_list n l) e =
     Msg_tuple [Part_str ''Removing initiators %s from host %s failed with error %s'',
                Part_list l, Part_str n, Part_str e]"
| "failure_msg (Modify_host_flag_dict n d) e =
     Msg_tuple [Part_str ''Modify host %s failed with error %s'', Part_str n, Part_str e]"
| "failure_msg (Modify_host_new_name n nn) e =
     Msg_tuple [Part_str ''Renaming of host %s failed with error %s'', Part_str n, Part_str e]"
| "failure_msg (Delete_host n) e =
     Msg_tuple [Part_str ''Delete host %s failed with error %s'', Part_str n, Part_str e]"
| "failure_msg (Get_host n) e = Msg_str []"
| "failure_msg Close_connection e = Msg_str []"

text \<open>A message names a text when the text occurs in the formatted string, or is
  one of the tuple's arguments.\<close>

definition msg_names :: "msg \<Rightarrow> string \<Rightarrow> bool" where
  "msg_names m x =
     (case m of Msg_str t \<Rightarrow> sublist x t | Msg_tuple ps \<Rightarrow> Part_str x \<in> set ps)"

text \<open>
  What the log of a run (or of a part of it) must look like for a failed mutation to
  be fatal: the run ended in \<^verbatim>\<open>fail_json\<close> with that mutation's message, and
  after the failed call nothing but the close of the connection was issued.
\<close>

definition fatal_ext :: "(call \<times> reply) list \<Rightarrow> 'a outcome \<Rightarrow> bool" where
  "fatal_ext ext out =
     (\<forall>c e. (c, Raised e) \<in> set ext \<and> is_mutation c \<longrightarrow>
        out = Fail_json (failure_msg c e)
        \<and> (\<exists>pre r. ext = pre @ [(c, Raised e), (Close_connection, r)]))"

definition extends_ok :: "'w session \<Rightarrow> 'a outcome \<times> 'w session \<Rightarrow> bool" where
  "extends_ok s r = (\<exists>ext. log (snd r) = log s @ ext \<and> fatal_ext ext (fst r))"

section \<open>Facts about the dictionaries\<close>

lemma lower_flag_names:
  "n \<in> set host_flags_list \<Longrightarrow> lower n = n"
  by (auto simp: host_flags_list_def lower_def char_lower_def)

lemma lower_consistent_lun: "lower ''consistent_lun'' = ''consistent_lun''"
  by (simp add: lower_def char_lower_def)

lemma consistent_lun_no_flag: "''consistent_lun'' \<notin> set host_flags_list"
  by (simp add: host_flags_list_def)

lemma map_of_set_to [simp]:
  "map_of (set_to_enable k d) = (map_of d)(lower k \<mapsto> Enabled)"
  "map_of (set_to_disable k d) = (map_of d)(lower k \<mapsto> Disabled)"
  "map_of (set_to_default k d) = (map_of d)(lower k \<mapsto> Default)"
  "map_of (disable_consistent_lun d) = (map_of d)(''consistent_lun'' \<mapsto> Flag_bool False)"
  "map_of (enable_consistent_lun d) = (map_of d)(''consistent_lun'' \<mapsto> Flag_bool True)"
  by (simp_all add: set_to_enable_def set_to_disable_def set_to_default_def
      disable_consistent_lun_def enable_consistent_lun_def update_conv')

lemma keys_set_to [simp]:
  "fst ` set (set_to_enable k d) = insert (lower k) (fst ` set d)"
  "fst ` set (set_to_disable k d) = insert (lower k) (fst ` set d)"
  "fst ` set (set_to_default k d) = insert (lower k) (fst ` set d)"
  "fst ` set (disable_consistent_lun d) = insert ''consistent_lun'' (fst ` set d)"
  "fst ` set (enable_consistent_lun d) = insert ''consistent_lun'' (fst ` set d)"
  by (simp_all add: set_to_enable_def set_to_disable_def set_to_default_def
      disable_consistent_lun_def enable_consistent_lun_def dom_update)

lemma distinct_set_to [simp]:
  "distinct (map fst d) \<Longrightarrow> distinct (map fst (set_to_enable k d))"
  "distinct (map fst d) \<Longrightarrow> distinct (map fst (set_to_disable k d))"
  "distinct (map fst d) \<Longrightarrow> distinct (map fst (set_to_default k d))"
  "distinct (map fst d) \<Longrightarrow> distinct (map fst (disable_consistent_lun d))"
  "distinct (map fst d) \<Longrightarrow> distinct (map fst (enable_consistent_lun d))"
  by (simp_all add: set_to_enable_def set_to_disable_def set_to_default_def
      disable_consistent_lun_def enable_consistent_lun_def distinct_update)

text \<open>On dictionaries (distinct keys) \<open>py_dict_eq\<close> is equality of the mappings.\<close>

lemma py_dict_eq_iff:
  assumes "distinct (map fst a)" and "distinct (map fst b)"
  shows "py_dict_eq a b \<longleftrightarrow> map_of a = map_of b"
proof
  assume eq: "py_dict_eq a b"
  show "map_of a = map_of b"
  proof
    fix k
    show "map_of a k = map_of b k"
    proof (cases "map_of a k")
      case None
      show ?thesis
      proof (cases "map_of b k")
        case (Some v)
        then have "(k, v) \<in> set b" by (rule map_of_SomeD)
        with eq have "map_of a k = Some v"
          by (auto simp: py_dict_eq_def list_all_iff)
        with None show ?thesis by simp
      qed (simp add: None)
    next
      case (Some v)
      then have "(k, v) \<in> set a" by (rule map_of_SomeD)
      with eq have "map_of b k = Some v"
        by (auto simp: py_dict_eq_def list_all_iff)
      with Some show ?thesis by simp
    qed
  qed
next
  assume eq: "map_of a = map_of b"
  have "map_of b (fst kv) = Some (snd kv)" if "kv \<in> set a" for kv
  proof -
    from that have "(fst kv, snd kv) \<in> set a" by simp
    with assms(1) have "map_of a (fst kv) = Some (snd kv)" by (rule map_of_is_SomeI)
    with eq show ?thesis by simp
  qed
  moreover have "map_of a (fst kv) = Some (snd kv)" if "kv \<in> set b" for kv
  proof -
    from that have "(fst kv, snd kv) \<in> set b" by simp
    with assms(2) have "map_of b (fst kv) = Some (snd kv)" by (rule map_of_is_SomeI)
    with eq show ?thesis by simp
  qed
  ultimately show "py_dict_eq a b"
    by (simp add: py_dict_eq_def list_all_iff)
qed

subsection \<open>The create loop\<close>

lemma create_flag_step_lookup:
  "map_of (create_flag_step received name d) =
     (map_of d)(lower name \<mapsto>
        (case map_of received name of
           None \<Rightarrow> Default
         | Some v \<Rightarrow>
             if v = PyStr ''unset'' \<or> v = PyStr ''Unset'' then Default
             else if v = PyBool False \<or> v = PyStr ''false'' \<or> v = PyStr ''False'' then Disabled
             else Enabled))"
  by (auto simp: create_flag_step_def py_in_def split: option.splits raw_value.splits)



lemma fold_create_other:
  "n \<notin> lower ` set names \<Longrightarrow>
     map_of (fold (create_flag_step received) names d) n = map_of d n"
  by (induction names arbitrary: d) (auto simp: create_flag_step_lookup)

lemma fold_create_lookup:
  "distinct (map lower names) \<Longrightarrow> x \<in> set names \<Longrightarrow>
     map_of (fold (create_flag_step received) names d) (lower x) =
       Some (case map_of received x of
           None \<Rightarrow> Default
         | Some v \<Rightarrow>
             if v = PyStr ''unset'' \<or> v = PyStr ''Unset'' then Default
             else if v = PyBool False \<or> v = PyStr ''false'' \<or> v = PyStr ''False'' then Disabled
             else Enabled)"
proof (induction names arbitrary: d)
  case Nil
  then show ?case by simp
next
  case (Cons a names)
  show ?case
  proof (cases "x = a")
    case True
    with Cons.prems have "lower x \<notin> lower ` set names" by auto
    then show ?thesis
      using True by (simp add: fold_create_other create_flag_step_lookup)
  next
    case False
    with Cons show ?thesis by simp
  qed
qed



lemma map_lower_flag_names: "map lower host_flags_list = host_flags_list"
  by (rule map_idI) (rule lower_flag_names)

lemma distinct_flag_names: "distinct host_flags_list"
  by (simp add: host_flags_list_def)

lemma distinct_lower_flag_names: "distinct (map lower host_flags_list)"
  by (simp only: map_lower_flag_names distinct_flag_names)

lemma lower_image_flag_names: "lower ` set host_flags_list = set host_flags_list"
  by (metis map_lower_flag_names set_map)

lemma create_dict_other:
  "n \<noteq> ''consistent_lun'' \<Longrightarrow>
     map_of (create_host_flags_dict received d0) n =
       map_of (fold (create_flag_step received) host_flags_list d0) n"
  by (simp add: create_host_flags_dict_def Let_def split: option.split)

lemma create_dict_flag:
  assumes "n \<in> set host_flags_list"
  shows "map_of (create_host_flags_dict received d0) n =
           Some (case map_of received n of
                   None \<Rightarrow> Default
                 | Some v \<Rightarrow>
                     if v = PyStr ''unset'' \<or> v = PyStr ''Unset'' then Default
                     else if v = PyBool False \<or> v = PyStr ''false'' \<or> v = PyStr ''False''
                     then Disabled
                     else Enabled)"
proof -
  have ne: "n \<noteq> ''consistent_lun''"
    using assms consistent_lun_no_flag by auto
  have "map_of (create_host_flags_dict received d0) n =
          map_of (fold (create_flag_step received) host_flags_list d0) (lower n)"
    using assms by (simp only: create_dict_other [OF ne] lower_flag_names)
  also have "\<dots> = Some (case map_of received n of
                   None \<Rightarrow> Default
                 | Some v \<Rightarrow>
                     if v = PyStr ''unset'' \<or> v = PyStr ''Unset'' then Default
                     else if v = PyBool False \<or> v = PyStr ''false'' \<or> v = PyStr ''False''
                     then Disabled
                     else Enabled)"
    using assms by (rule fold_create_lookup [OF distinct_lower_flag_names])
  finally show ?thesis .
qed

lemma create_dict_consistent_lun:
  "map_of (create_host_flags_dict received d0) ''consistent_lun'' =
     Some (Flag_bool
            (case map_of received ''consistent_lun'' of
               None \<Rightarrow> False
             | Some v \<Rightarrow>
                 \<not> (v = PyBool False \<or> v = PyStr ''unset'' \<or> v = PyStr ''Unset''
                    \<or> v = PyStr ''false'' \<or> v = PyStr ''False'')))"
  by (simp add: create_host_flags_dict_def Let_def py_in_def
      split: option.split raw_value.split)

text \<open>
  Claim C2, as the code has it. For each of the eight flag names the create path maps
  an absent flag and exactly the strings \<open>unset\<close> and \<open>Unset\<close> to Default, boolean
  false and exactly the strings \<open>false\<close> and \<open>False\<close> to Disabled, and every other
  present value to Enabled, other casings of those words included;
  \<open>consistent_lun\<close> is false for absence, boolean false and exactly the four strings
  \<open>unset\<close>, \<open>Unset\<close>, \<open>false\<close>, \<open>False\<close>, and true for any other value.
\<close>

theorem create_host_flags_dict_rule:
  assumes "n \<in> set host_flags_list"
  shows "map_of (create_host_flags_dict received d0) n =
           Some (case map_of received n of
                   None \<Rightarrow> Default
                 | Some v \<Rightarrow>
                     if v = PyStr ''unset'' \<or> v = PyStr ''Unset'' then Default
                     else if v = PyBool False \<or> v = PyStr ''false'' \<or> v = PyStr ''False''
                     then Disabled
                     else Enabled)
         \<and> map_of (create_host_flags_dict received d0) ''consistent_lun'' =
           Some (Flag_bool
                  (case map_of received ''consistent_lun'' of
                     None \<Rightarrow> False
                   | Some v \<Rightarrow>
                       \<not> (v = PyBool False \<or> v = PyStr ''unset'' \<or> v = PyStr ''Unset''
                          \<or> v = PyStr ''false'' \<or> v = PyStr ''False'')))"
  using create_dict_flag [OF assms] create_dict_consistent_lun by (rule conjI)

lemma scsi_3_flag: "''scsi_3'' \<in> set host_flags_list"
  by (simp add: host_flags_list_def)

lemma openvms_flag: "''openvms'' \<in> set host_flags_list"
  by (simp add: host_flags_list_def)

text \<open>The rule at the flag \<open>scsi_3\<close> given as \<open>Unset\<close>, with
  \<open>consistent_lun\<close> given as the string \<open>true\<close>.\<close>

theorem create_host_flags_dict_rule_witness:
  "''scsi_3'' \<in> set host_flags_list
   \<and> map_of (create_host_flags_dict
               [(''scsi_3'', PyStr ''Unset''), (''consistent_lun'', PyStr ''true'')] [])
        ''scsi_3'' = Some Default
   \<and> map_of (create_host_flags_dict
               [(''scsi_3'', PyStr ''Unset''), (''consistent_lun'', PyStr ''true'')] [])
        ''consistent_lun'' = Some (Flag_bool True)"
  using create_host_flags_dict_rule [OF scsi_3_flag,
      of "[(''scsi_3'', PyStr ''Unset''), (''consistent_lun'', PyStr ''true'')]" "[]"]
    scsi_3_flag
  by simp

text \<open>Claim C2 as stated fails: the create path is not case-insensitive. The strings
  \<open>UNSET\<close> and \<open>FALSE\<close> enable a flag, and \<open>uNsEt\<close> enables
  \<open>consistent_lun\<close>.\<close>

theorem normalization_casing_counterexample:
  "map_of (create_host_flags_dict
             [(''scsi_3'', PyStr ''UNSET''), (''openvms'', PyStr ''FALSE''),
              (''consistent_lun'', PyStr ''uNsEt'')] []) ''scsi_3'' = Some Enabled
   \<and> map_of (create_host_flags_dict
             [(''scsi_3'', PyStr ''UNSET''), (''openvms'', PyStr ''FALSE''),
              (''consistent_lun'', PyStr ''uNsEt'')] []) ''openvms'' = Some Enabled
   \<and> map_of (create_host_flags_dict
             [(''scsi_3'', PyStr ''UNSET''), (''openvms'', PyStr ''FALSE''),
              (''consistent_lun'', PyStr ''uNsEt'')] []) ''consistent_lun'' = Some (Flag_bool True)"
  by (simp add: create_dict_flag [OF scsi_3_flag] create_dict_flag [OF openvms_flag]
      create_dict_consistent_lun)

subsection \<open>Initiator differences\<close>

lemma add_initiators_set:
  "get_add_initiators existing requested = set requested - set existing"
  by (auto simp: get_add_initiators_def)

text \<open>
  Claim C4. \<^verbatim>\<open>_get_add_initiators\<close> returns the requested initiators that
  are not existing ones, \<^verbatim>\<open>_get_remove_initiators\<close> the existing ones that
  are requested; what is added is disjoint from the existing initiators, what is
  removed lies within both lists, an empty request gives the empty result, and
  both results depend only on the sets of the two lists (neither order nor
  repetition of the inputs matters).
\<close>

theorem initiator_diff_algebra:
  "get_add_initiators existing requested = set requested - set existing
   \<and> get_remove_initiators existing requested = set existing \<inter> set requested
   \<and> get_add_initiators existing requested \<inter> set existing = {}
   \<and> get_remove_initiators existing requested \<subseteq> set existing \<inter> set requested
   \<and> get_add_initiators existing [] = {}
   \<and> get_remove_initiators existing [] = {}
   \<and> (set existing' = set existing \<and> set requested' = set requested \<longrightarrow>
        get_add_initiators existing' requested' = get_add_initiators existing requested
        \<and> get_remove_initiators existing' requested' = get_remove_initiators existing requested)"
  unfolding add_initiators_set get_remove_initiators_def by auto

text \<open>Two listings of the same initiators, reordered and with repetitions.\<close>

theorem initiator_diff_algebra_witness:
  "get_add_initiators [''b'', ''a'', ''a''] [''c'', ''b''] =
     get_add_initiators [''a'', ''b''] [''b'', ''c'', ''c'']
   \<and> get_remove_initiators [''b'', ''a'', ''a''] [''c'', ''b''] =
     get_remove_initiators [''a'', ''b''] [''b'', ''c'', ''c'']
   \<and> get_add_initiators [''a'', ''b''] [''b'', ''c'', ''c''] = {''c''}
   \<and> get_remove_initiators [''a'', ''b''] [''b'', ''c'', ''c''] = {''b''}"
proof -
  have h: "set [''b'', ''a'', ''a''] = set [''a'', ''b'']
           \<and> set [''c'', ''b''] = set [''b'', ''c'', ''c'']"
    by (simp add: insert_commute)
  have c: "set [''b'', ''c'', ''c''] - set [''a'', ''b''] = {''c''}"
    by simp
  have b: "set [''a'', ''b''] \<inter> set [''b'', ''c'', ''c''] = {''b''}"
    by simp
  from initiator_diff_algebra
    [of "[''a'', ''b'']" "[''b'', ''c'', ''c'']" "[''b'', ''a'', ''a'']" "[''c'', ''b'']"]
    h c b
  show ?thesis by (simp only: simp_thms)
qed

subsection \<open>The overlay loop\<close>

lemma overlay_step_other:
  "lower (fst kv) \<noteq> n \<Longrightarrow> map_of (overlay_step kv d) n = map_of d n"
  by (cases kv) (auto simp: overlay_step_def lower_consistent_lun)




lemma overlay_other:
  "\<forall>kv\<in>set xs. lower (fst kv) \<noteq> n \<Longrightarrow> map_of (overlay_flags xs d) n = map_of d n"
  unfolding overlay_flags_def
  by (induction xs arbitrary: d) (simp_all add: overlay_step_other)






text \<open>Keys of the nine names are their own lower-case form.\<close>

lemma lower_known_key:
  "k \<in> set host_flags_list \<union> {''consistent_lun''} \<Longrightarrow> lower k = k"
  using lower_flag_names lower_consistent_lun by auto

text \<open>
  Claim C5. When the raw flags input mentions only names of the closed set (the
  eight flag names and \<open>consistent_lun\<close>), the overlay leaves every entry of the
  baseline whose name the input does not mention as it was, \<open>consistent_lun\<close>
  included.
\<close>

theorem overlay_frame:
  assumes "set (map fst received) \<subseteq> set host_flags_list \<union> {''consistent_lun''}"
      and "n \<notin> set (map fst received)"
  shows "map_of (overlay_flags received B) n = map_of B n"
proof (rule overlay_other, rule ballI)
  fix kv assume kv: "kv \<in> set received"
  then have k: "fst kv \<in> set (map fst received)" by simp
  then have "lower (fst kv) = fst kv"
    using assms(1) lower_known_key by blast
  then show "lower (fst kv) \<noteq> n"
    using k assms(2) by auto
qed


text \<open>
  An input that mentions only \<open>scsi_3\<close>: the baseline's \<open>consistent_lun\<close>
  stays true.
\<close>

theorem overlay_frame_witness:
  "set (map fst [(''scsi_3'', PyBool True)]) \<subseteq> set host_flags_list \<union> {''consistent_lun''}
   \<and> ''consistent_lun'' \<notin> set (map fst [(''scsi_3'', PyBool True)])
   \<and> map_of (overlay_flags [(''scsi_3'', PyBool True)]
               [(''scsi_3'', Default), (''consistent_lun'', Flag_bool True)])
        ''consistent_lun'' = Some (Flag_bool True)"
proof -
  have a: "set (map fst [(''scsi_3'', PyBool True)]) \<subseteq> set host_flags_list \<union> {''consistent_lun''}"
    using scsi_3_flag by simp
  have b: "''consistent_lun'' \<notin> set (map fst [(''scsi_3'', PyBool True)])"
    by simp
  from overlay_frame [OF a b, of "[(''scsi_3'', Default), (''consistent_lun'', Flag_bool True)]"] a b
  show ?thesis by simp
qed




subsection \<open>The flag dictionary rebuilt from the array's report\<close>

lemma fold_set_to_default_lookup:
  "map_of (fold set_to_default names d) n =
     (if n \<in> lower ` set names then Some Default else map_of d n)"
  by (induction names arbitrary: d) auto



lemma create_default_lookup:
  "map_of (create_default_host_flags_dict d) n =
     (if n = ''consistent_lun'' then Some (Flag_bool False)
      else if n \<in> set host_flags_list then Some Default
      else map_of d n)"
  by (simp add: create_default_host_flags_dict_def fold_set_to_default_lookup
      lower_image_flag_names)



lemma reported_names_iff:
  "n \<in> reported_names txt \<longleftrightarrow>
     (\<exists>flag\<in>set (split_comma txt). flag \<noteq> [] \<and> n = lower (re_sub_parens flag))"
  by (auto simp: reported_names_def)

lemma fold_enable_lookup:
  "map_of (fold (\<lambda>flag d. if flag \<noteq> [] then set_to_enable (re_sub_parens flag) d else d)
             xs d) n =
     (if \<exists>flag\<in>set xs. flag \<noteq> [] \<and> n = lower (re_sub_parens flag) then Some Enabled
      else map_of d n)"
  by (induction xs arbitrary: d) auto

lemma fold_disable_lookup:
  "map_of (fold (\<lambda>flag d. if flag \<noteq> [] then set_to_disable (re_sub_parens flag) d else d)
             xs d) n =
     (if \<exists>flag\<in>set xs. flag \<noteq> [] \<and> n = lower (re_sub_parens flag) then Some Disabled
      else map_of d n)"
  by (induction xs arbitrary: d) auto





lemma report_enable_lookup:
  "map_of (fold (\<lambda>flag d. if flag \<noteq> [] then set_to_enable (re_sub_parens flag) d else d)
             (split_comma txt) d) n =
     (if n \<in> reported_names txt then Some Enabled else map_of d n)"
  by (simp only: fold_enable_lookup reported_names_iff)

lemma report_disable_lookup:
  "map_of (fold (\<lambda>flag d. if flag \<noteq> [] then set_to_disable (re_sub_parens flag) d else d)
             (split_comma txt) d) n =
     (if n \<in> reported_names txt then Some Disabled else map_of d n)"
  by (simp only: fold_disable_lookup reported_names_iff)



lemma recreate_lookup:
  "n \<noteq> ''consistent_lun'' \<Longrightarrow>
     map_of (recreate_host_flag_dict h d) n =
       (if n \<in> reported_names (disabled_flags h) then Some Disabled
        else if n \<in> reported_names (enabled_flags h) then Some Enabled
        else if n \<in> set host_flags_list then Some Default
        else map_of d n)"
  by (simp add: recreate_host_flag_dict_def Let_def report_disable_lookup report_enable_lookup
      create_default_lookup)

lemma recreate_consistent_lun:
  "map_of (recreate_host_flag_dict h d) ''consistent_lun'' = Some (Flag_bool (consistent_lun h))"
  by (simp add: recreate_host_flag_dict_def Let_def)



text \<open>What the substitution removes.\<close>

lemma find_close_annotation:
  "CHR '')'' \<notin> set ann \<Longrightarrow> CHR 0x0A \<notin> set ann \<Longrightarrow>
     find_close (ann @ CHR '')'' # rest) = Some rest"
  by (induction ann) auto

lemma re_sub_parens_annotation:
  "CHR ''('' \<notin> set name \<Longrightarrow> CHR '')'' \<notin> set ann \<Longrightarrow> CHR 0x0A \<notin> set ann \<Longrightarrow>
     re_sub_parens (name @ CHR ''('' # ann @ CHR '')'' # rest) = name @ re_sub_parens rest"
  by (induction name) (auto simp: find_close_annotation)

lemma re_sub_parens_plain:
  "CHR ''('' \<notin> set name \<Longrightarrow> re_sub_parens name = name"
  by (induction name) auto


lemma reported_names_image:
  "reported_names txt =
     (\<lambda>flag. lower (re_sub_parens flag)) ` {flag \<in> set (split_comma txt). flag \<noteq> []}"
  by (auto simp: reported_names_def)

lemma find_close_none:
  "CHR '')'' \<notin> set (takeWhile (\<lambda>c. c \<noteq> CHR 0x0A) tail) \<Longrightarrow> find_close tail = None"
  by (induction tail) (auto split: if_splits)

lemma re_sub_parens_unmatched:
  "CHR ''('' \<notin> set name \<Longrightarrow> CHR '')'' \<notin> set (takeWhile (\<lambda>c. c \<noteq> CHR 0x0A) tail) \<Longrightarrow>
     re_sub_parens (name @ CHR ''('' # tail) = name @ CHR ''('' # re_sub_parens tail"
  by (induction name) (auto simp: find_close_none)

lemma split_comma_plain:
  "CHR '','' \<notin> set piece \<Longrightarrow> split_comma piece = [piece]"
  by (induction piece) auto

lemma split_comma_nonempty: "split_comma s \<noteq> []"
  by (induction s) (auto split: list.splits)

lemma split_comma_first:
  "CHR '','' \<notin> set piece \<Longrightarrow> split_comma (piece @ CHR '','' # rest) = piece # split_comma rest"
  by (induction piece) (auto split: list.splits)

text \<open>The three equations of the substitution leave no freedom: a function that
  satisfies them is the substitution.\<close>

lemma re_sub_parens_determined:
  assumes plain: "\<And>name. CHR ''('' \<notin> set name \<Longrightarrow> f name = name"
      and ann: "\<And>name ann rest.
                 CHR ''('' \<notin> set name \<Longrightarrow> CHR '')'' \<notin> set ann \<Longrightarrow> CHR 0x0A \<notin> set ann \<Longrightarrow>
                 f (name @ CHR ''('' # ann @ CHR '')'' # rest) = name @ f rest"
      and unmatched: "\<And>name tail.
                 CHR ''('' \<notin> set name \<Longrightarrow>
                 CHR '')'' \<notin> set (takeWhile (\<lambda>c. c \<noteq> CHR 0x0A) tail) \<Longrightarrow>
                 f (name @ CHR ''('' # tail) = name @ CHR ''('' # f tail"
  shows "f s = re_sub_parens s"
proof (induction "length s" arbitrary: s rule: less_induct)
  case less
  define name where "name = takeWhile (\<lambda>c. c \<noteq> CHR ''('') s"
  define after where "after = dropWhile (\<lambda>c. c \<noteq> CHR ''('') s"
  have s: "s = name @ after"
    by (simp add: name_def after_def)
  have nm: "CHR ''('' \<notin> set name"
    unfolding name_def by (auto dest: set_takeWhileD)
  show ?case
  proof (cases after)
    case Nil
    with s nm show ?thesis
      by (simp add: plain re_sub_parens_plain)
  next
    case (Cons c tail)
    have c: "c = CHR ''(''"
      using Cons hd_dropWhile [of "\<lambda>c. c \<noteq> CHR ''(''" s] by (simp add: after_def)
    have s': "s = name @ CHR ''('' # tail"
      using s Cons c by simp
    show ?thesis
    proof (cases "CHR '')'' \<in> set (takeWhile (\<lambda>c. c \<noteq> CHR 0x0A) tail)")
      case False
      have "length tail < length s"
        using s' by simp
      then have "f tail = re_sub_parens tail"
        by (rule less)
      with False nm show ?thesis
        by (simp add: s' unmatched re_sub_parens_unmatched)
    next
      case True
      define an where "an = takeWhile (\<lambda>c. c \<noteq> CHR '')'') tail"
      define rest where "rest = tl (dropWhile (\<lambda>c. c \<noteq> CHR '')'') tail)"
      from True have in_tail: "CHR '')'' \<in> set tail"
        by (auto dest: set_takeWhileD)
      then have "dropWhile (\<lambda>c. c \<noteq> CHR '')'') tail \<noteq> []"
        by (simp add: dropWhile_eq_Nil_conv) 
      then have "dropWhile (\<lambda>c. c \<noteq> CHR '')'') tail = CHR '')'' # rest"
        using hd_dropWhile [of "\<lambda>c. c \<noteq> CHR '')''" tail]
        by (cases "dropWhile (\<lambda>c. c \<noteq> CHR '')'') tail") (auto simp: rest_def)
      then have t: "tail = an @ CHR '')'' # rest"
        using takeWhile_dropWhile_id [of "\<lambda>c. c \<noteq> CHR '')''" tail] by (simp add: an_def)
      have a1: "CHR '')'' \<notin> set an"
        unfolding an_def by (auto dest: set_takeWhileD)
      have a2: "CHR 0x0A \<notin> set an"
      proof
        assume "CHR 0x0A \<in> set an"
        then obtain u v where an_split: "an = u @ CHR 0x0A # v" and "CHR 0x0A \<notin> set u"
          by (auto dest: split_list_first)
        then have "takeWhile (\<lambda>c. c \<noteq> CHR 0x0A) tail = u"
          using t by (simp add: takeWhile_append)
        with True have "CHR '')'' \<in> set u" by simp
        with a1 an_split show False by simp
      qed
      have "length rest < length s"
        using s' t by simp
      then have "f rest = re_sub_parens rest"
        by (rule less)
      with nm a1 a2 show ?thesis
        by (simp add: s' t ann re_sub_parens_annotation)
    qed
  qed
qed

text \<open>
  Claim C8. In the dictionary rebuilt from the array's report, each of the eight flag
  names is Disabled when a piece of the disabled report names it, else Enabled when
  a piece of the enabled report names it, else Default, and \<open>consistent_lun\<close> is
  the reported boolean. A piece is what stands between two commas; it names the
  lower-case form of what the substitution of \<^verbatim>\<open>\(.*?\)\<close> leaves of it. The
  substitution leaves a text without opening parenthesis as it is; it removes an
  opening parenthesis together with everything up to the first closing parenthesis
  after it, when no newline stands between them, and goes on behind it; and it keeps
  an opening parenthesis that no closing one follows before the next newline, and
  goes on behind it.
\<close>

theorem recreate_host_flag_dict_report:
  assumes "n \<in> set host_flags_list"
  shows "map_of (recreate_host_flag_dict h []) n =
           Some (if \<exists>flag\<in>set (split_comma (disabled_flags h)).
                      flag \<noteq> [] \<and> n = lower (re_sub_parens flag) then Disabled
                 else if \<exists>flag\<in>set (split_comma (enabled_flags h)).
                      flag \<noteq> [] \<and> n = lower (re_sub_parens flag) then Enabled
                 else Default)
         \<and> map_of (recreate_host_flag_dict h []) ''consistent_lun'' =
             Some (Flag_bool (consistent_lun h))
         \<and> (CHR ''('' \<notin> set plain \<longrightarrow> re_sub_parens plain = plain)
         \<and> (CHR ''('' \<notin> set name \<and> CHR '')'' \<notin> set ann \<and> CHR 0x0A \<notin> set ann \<longrightarrow>
              re_sub_parens (name @ ''('' @ ann @ '')'' @ rest) = name @ re_sub_parens rest)
         \<and> (CHR ''('' \<notin> set open_name
              \<and> CHR '')'' \<notin> set (takeWhile (\<lambda>c. c \<noteq> CHR 0x0A) tail) \<longrightarrow>
              re_sub_parens (open_name @ ''('' @ tail) = open_name @ ''('' @ re_sub_parens tail)
         \<and> (CHR '','' \<notin> set piece \<longrightarrow>
              split_comma piece = [piece]
              \<and> split_comma (piece @ '','' @ later) = piece # split_comma later)"
proof -
  have ne: "n \<noteq> ''consistent_lun''"
    using assms consistent_lun_no_flag by auto
  have a: "map_of (recreate_host_flag_dict h []) n =
           Some (if \<exists>flag\<in>set (split_comma (disabled_flags h)).
                      flag \<noteq> [] \<and> n = lower (re_sub_parens flag) then Disabled
                 else if \<exists>flag\<in>set (split_comma (enabled_flags h)).
                      flag \<noteq> [] \<and> n = lower (re_sub_parens flag) then Enabled
                 else Default)"
    using assms by (simp add: recreate_lookup [OF ne] reported_names_iff)
  have p: "CHR ''('' \<notin> set plain \<longrightarrow> re_sub_parens plain = plain"
    by (simp add: re_sub_parens_plain)
  have d: "CHR ''('' \<notin> set name \<and> CHR '')'' \<notin> set ann \<and> CHR 0x0A \<notin> set ann \<longrightarrow>
              re_sub_parens (name @ ''('' @ ann @ '')'' @ rest) = name @ re_sub_parens rest"
    using re_sub_parens_annotation [of name ann rest] by simp
  have u: "CHR ''('' \<notin> set open_name
              \<and> CHR '')'' \<notin> set (takeWhile (\<lambda>c. c \<noteq> CHR 0x0A) tail) \<longrightarrow>
              re_sub_parens (open_name @ ''('' @ tail) = open_name @ ''('' @ re_sub_parens tail"
    using re_sub_parens_unmatched [of open_name tail] by simp
  have c: "CHR '','' \<notin> set piece \<longrightarrow>
              split_comma piece = [piece]
              \<and> split_comma (piece @ '','' @ later) = piece # split_comma later"
    using split_comma_plain [of piece] split_comma_first [of piece later] by simp
  from a recreate_consistent_lun p d u c show ?thesis
    by (intro conjI)
qed



text \<open>
  A report with an annotated flag: \<open>SCSI_3(Ovrd)\<close> enables \<open>scsi_3\<close>. An
  annotation inside a piece is cut out and the text behind it kept; a parenthesis
  that is never closed stays.
\<close>

theorem recreate_host_flag_dict_report_witness:
  "''scsi_3'' \<in> set host_flags_list
   \<and> map_of (recreate_host_flag_dict
               \<lparr>hostId = ''H1'', initiator = None, enabled_flags = ''SCSI_3(Ovrd),OpenVMS'',
                disabled_flags = ''Environ_Set'', consistent_lun = True\<rparr> []) ''scsi_3''
       = Some Enabled
   \<and> map_of (recreate_host_flag_dict
               \<lparr>hostId = ''H1'', initiator = None, enabled_flags = ''SCSI_3(Ovrd),OpenVMS'',
                disabled_flags = ''Environ_Set'', consistent_lun = True\<rparr> []) ''consistent_lun''
       = Some (Flag_bool True)
   \<and> re_sub_parens ''OpenVMS'' = ''OpenVMS''
   \<and> re_sub_parens ''SCSI_3(Ovrd)X'' = ''SCSI_3X''
   \<and> re_sub_parens ''Open(VMS'' = ''Open(VMS''
   \<and> split_comma ''SCSI_3(Ovrd),OpenVMS'' = [''SCSI_3(Ovrd)'', ''OpenVMS'']"
proof -
  note t = recreate_host_flag_dict_report
    [where n = "''scsi_3''"
       and h = "\<lparr>hostId = ''H1'', initiator = None, enabled_flags = ''SCSI_3(Ovrd),OpenVMS'',
                 disabled_flags = ''Environ_Set'', consistent_lun = True\<rparr>"
       and plain = "''OpenVMS''"
       and name = "''SCSI_3''" and ann = "''Ovrd''" and rest = "''X''"
       and open_name = "''Open''" and tail = "''VMS''"
       and piece = "''SCSI_3(Ovrd)''" and later = "''OpenVMS''", OF scsi_3_flag]
  from t scsi_3_flag show ?thesis
    by (simp add: lower_def char_lower_def)
qed


subsection \<open>The keys of the dictionaries handed to the array\<close>














section \<open>Facts about the runs\<close>

lemma invoke_cases:
  obtains r s' where "invoke R c s = (r, s')" and "log s' = log s @ [(c, r)]"
  by (cases "R c (world s)") (simp add: invoke_def)

lemma get_host_cases:
  obtains h r s' where "get_host R n s = (h, s')" and "log s' = log s @ [(Get_host n, r)]"
proof (rule invoke_cases [of R "Get_host n" s])
  fix r s' assume i: "invoke R (Get_host n) s = (r, s')" and l: "log s' = log s @ [(Get_host n, r)]"
  show thesis
    by (cases r) (use i l that in \<open>auto simp: get_host_def\<close>)
qed

lemma show_error_exit_cases:
  obtains r s' where "show_error_exit R m s = (Fail_json m, s')"
    and "log s' = log s @ [(Close_connection, r)]"
  by (rule invoke_cases [of R Close_connection s]) (simp add: show_error_exit_def)

lemma extends_ok_Return: "extends_ok s (Return v, s)"
  by (simp add: extends_ok_def fatal_ext_def)

lemma extends_ok_prefix:
  assumes "log s1 = log s @ pre0"
      and "\<And>c e. (c, Raised e) \<in> set pre0 \<Longrightarrow> \<not> is_mutation c"
      and "extends_ok s1 r"
  shows "extends_ok s r"
proof -
  from assms(3) obtain ext where l: "log (snd r) = log s1 @ ext" and f: "fatal_ext ext (fst r)"
    by (auto simp: extends_ok_def)
  have "fatal_ext (pre0 @ ext) (fst r)"
    unfolding fatal_ext_def
  proof (intro allI impI, elim conjE)
    fix c e assume in_set: "(c, Raised e) \<in> set (pre0 @ ext)" and mut: "is_mutation c"
    with assms(2) have "(c, Raised e) \<in> set ext" by auto
    with f mut have o: "fst r = Fail_json (failure_msg c e)"
      and "\<exists>pre r'. ext = pre @ [(c, Raised e), (Close_connection, r')]"
      by (auto simp: fatal_ext_def)
    then obtain pre r' where "ext = pre @ [(c, Raised e), (Close_connection, r')]" by blast
    then have "pre0 @ ext = (pre0 @ pre) @ [(c, Raised e), (Close_connection, r')]" by simp
    with o show "fst r = Fail_json (failure_msg c e)
        \<and> (\<exists>pre r'. pre0 @ ext = pre @ [(c, Raised e), (Close_connection, r')])"
      by blast
  qed
  with l assms(1) show ?thesis
    by (auto simp: extends_ok_def)
qed

lemma mutation_call_ok:
  assumes "is_mutation c"
  shows "extends_ok s
           (case invoke R c s of
              (Raised e, s') \<Rightarrow> show_error_exit R (failure_msg c e) s'
            | (Returned x, s') \<Rightarrow> (Return (v::'v), s'))"
proof (rule invoke_cases [of R c s])
  fix r s' assume i: "invoke R c s = (r, s')" and l: "log s' = log s @ [(c, r)]"
  show ?thesis
  proof (cases r)
    case (Raised e)
    show ?thesis
    proof (rule show_error_exit_cases [of R "failure_msg c e" s'])
      fix r2 s2 assume x: "show_error_exit R (failure_msg c e) s' = (Fail_json (failure_msg c e) :: 'v outcome, s2)"
        and l2: "log s2 = log s' @ [(Close_connection, r2)]"
      have "log s2 = log s @ [(c, Raised e), (Close_connection, r2)]"
        using l l2 Raised by simp
      moreover have "fatal_ext [(c, Raised e), (Close_connection, r2)]
                       (Fail_json (failure_msg c e) :: 'v outcome)"
        by (auto simp: fatal_ext_def)
      ultimately show ?thesis
        using i Raised x by (auto simp: extends_ok_def)
    qed
  next
    case (Returned x)
    then show ?thesis
      using i l by (auto simp: extends_ok_def fatal_ext_def)
  qed
qed

lemma mutation_call_msg_ok:
  assumes "is_mutation c" and "\<And>e. m e = failure_msg c e"
  shows "extends_ok s
           (case invoke R c s of
              (Raised e, s') \<Rightarrow> show_error_exit R (m e) s'
            | (Returned x, s') \<Rightarrow> (Return (v::'v), s'))"
proof -
  have meq: "m = failure_msg c"
    using assms(2) by auto
  show ?thesis
    unfolding meq by (rule mutation_call_ok [OF assms(1)])
qed

lemma extends_ok_after_get:
  assumes "\<And>h s1. extends_ok s1 (k h s1)"
  shows "extends_ok s (case get_host R n s of (h, s1) \<Rightarrow> k h s1)"
proof (rule get_host_cases [of R n s])
  fix h r s' assume g: "get_host R n s = (h, s')" and l: "log s' = log s @ [(Get_host n, r)]"
  have "extends_ok s (k h s')"
    by (rule extends_ok_prefix [OF l _ assms]) simp
  then show ?thesis
    by (simp add: g)
qed

lemma fatal_ext_no_raise:
  "fatal_ext ext (Return v) \<Longrightarrow> (c, Raised e) \<in> set ext \<Longrightarrow> \<not> is_mutation c"
  by (auto simp: fatal_ext_def)

lemma extends_ok_and_then:
  assumes "extends_ok s r"
      and "\<And>v s1. extends_ok s1 (k v s1)"
  shows "extends_ok s (and_then r k)"
proof (cases r)
  case (Pair out s1)
  from assms(1) Pair obtain ext where l: "log s1 = log s @ ext" and f: "fatal_ext ext out"
    by (auto simp: extends_ok_def)
  show ?thesis
  proof (cases out)
    case (Return v)
    have "extends_ok s (k v s1)"
      by (rule extends_ok_prefix [OF l _ assms(2)])
         (use f Return in \<open>auto dest: fatal_ext_no_raise\<close>)
    then show ?thesis
      using Pair Return by (simp add: and_then_def)
  next
    case (Fail_json m)
    with f have "fatal_ext ext (Fail_json m :: 'c outcome)"
      by (simp add: fatal_ext_def)
    then show ?thesis
      using Pair Fail_json l by (auto simp: and_then_def extends_ok_def)
  next
    case (Uncaught e)
    with f have "fatal_ext ext (Uncaught e :: 'c outcome)"
      by (simp add: fatal_ext_def)
    then show ?thesis
      using Pair Uncaught l by (auto simp: and_then_def extends_ok_def)
  qed
qed


lemma create_host_ok: "extends_ok s (create_host R p name s)"
  unfolding create_host_def Let_def
  by (rule mutation_call_msg_ok) simp_all

lemma rename_host_ok: "extends_ok s (rename_host R name nn s)"
  unfolding rename_host_def
  by (rule mutation_call_msg_ok) simp_all

lemma delete_host_ok: "extends_ok s (delete_host R name s)"
  unfolding delete_host_def
  by (rule mutation_call_msg_ok) simp_all

lemma add_host_initiators_ok: "extends_ok s (add_host_initiators R name inits s)"
  unfolding add_host_initiators_def
proof (rule extends_ok_after_get)
  fix h s1
  show "extends_ok s1
          (let existing_inits = existing_inits_of h in
           if inits \<noteq> [] \<and> set inits \<subseteq> set existing_inits then (Return False, s1)
           else
             let add_list = get_add_initiators existing_inits inits in
             if add_list \<noteq> {} then
               (case invoke R (Modify_host_add_init_list name add_list) s1 of
                  (Raised e, s2) \<Rightarrow>
                    show_error_exit R
                      (Msg_tuple [Part_str ''Adding initiators %s to host %s failed witherror %s'',
                                  Part_list add_list, Part_str name, Part_str e]) s2
                | (Returned x, s2) \<Rightarrow> (Return True, s2))
             else (Return False, s1))"
    unfolding Let_def
    by (auto intro!: mutation_call_msg_ok simp: extends_ok_Return)
qed

lemma remove_host_initiators_ok: "extends_ok s (remove_host_initiators R name inits s)"
  unfolding remove_host_initiators_def
proof (rule extends_ok_after_get)
  fix h s1
  show "extends_ok s1
          (let existing_inits = existing_inits_of h in
           if existing_inits = [] then (Return False, s1)
           else
             let remove_list = get_remove_initiators existing_inits inits in
             if remove_list \<noteq> {} then
               (case invoke R (Modify_host_remove_init_list name remove_list) s1 of
                  (Raised e, s2) \<Rightarrow>
                    show_error_exit R
                      (Msg_tuple [Part_str ''Removing initiators %s from host %s failed with error %s'',
                                  Part_list remove_list, Part_str name, Part_str e]) s2
                | (Returned x, s2) \<Rightarrow> (Return True, s2))
             else (Return False, s1))"
    unfolding Let_def
    by (auto intro!: mutation_call_msg_ok simp: extends_ok_Return)
qed

lemma extends_ok_Uncaught: "extends_ok s (Uncaught e, s)"
  by (simp add: extends_ok_def fatal_ext_def)

lemma modify_host_flags_ok: "extends_ok s (modify_host_flags R name received s)"
proof -
  have "extends_ok s1
          (case h of
             None \<Rightarrow> (Uncaught ''TypeError'', s1)
           | Some x \<Rightarrow>
               let current_flags = recreate_host_flag_dict x [];
                   new_flags_dict = overlay_flags received current_flags
               in if py_dict_eq new_flags_dict current_flags then (Return False, s1)
                  else
                    (case invoke R (Modify_host_flag_dict name new_flags_dict) s1 of
                       (Raised e, s2) \<Rightarrow>
                         show_error_exit R
                           (Msg_tuple [Part_str ''Modify host %s failed with error %s'',
                                       Part_str name, Part_str e]) s2
                     | (Returned x, s2) \<Rightarrow> (Return True, s2)))" for h s1
  proof (cases h)
    case None
    then show ?thesis by (simp add: extends_ok_Uncaught)
  next
    case (Some x)
    then show ?thesis
      unfolding Let_def
      by (auto intro!: mutation_call_msg_ok simp: extends_ok_Return)
  qed
  then have "extends_ok s (case get_host R name s of (h, s1) \<Rightarrow>
          (case h of
             None \<Rightarrow> (Uncaught ''TypeError'', s1)
           | Some x \<Rightarrow>
               let current_flags = recreate_host_flag_dict x [];
                   new_flags_dict = overlay_flags received current_flags
               in if py_dict_eq new_flags_dict current_flags then (Return False, s1)
                  else
                    (case invoke R (Modify_host_flag_dict name new_flags_dict) s1 of
                       (Raised e, s2) \<Rightarrow>
                         show_error_exit R
                           (Msg_tuple [Part_str ''Modify host %s failed with error %s'',
                                       Part_str name, Part_str e]) s2
                     | (Returned x, s2) \<Rightarrow> (Return True, s2))))"
    by (rule extends_ok_after_get)
  moreover have "modify_host_flags R name received s = (case get_host R name s of (h, s1) \<Rightarrow>
          (case h of
             None \<Rightarrow> (Uncaught ''TypeError'', s1)
           | Some x \<Rightarrow>
               let current_flags = recreate_host_flag_dict x [];
                   new_flags_dict = overlay_flags received current_flags
               in if py_dict_eq new_flags_dict current_flags then (Return False, s1)
                  else
                    (case invoke R (Modify_host_flag_dict name new_flags_dict) s1 of
                       (Raised e, s2) \<Rightarrow>
                         show_error_exit R
                           (Msg_tuple [Part_str ''Modify host %s failed with error %s'',
                                       Part_str name, Part_str e]) s2
                     | (Returned x, s2) \<Rightarrow> (Return True, s2))))"
    by (simp add: modify_host_flags_def split: prod.splits option.splits)
  ultimately show ?thesis by simp
qed

lemma step_create_ok: "extends_ok s (step_create R p h changed s)"
  by (simp add: step_create_def create_host_ok extends_ok_Return)

lemma step_add_ok: "extends_ok s (step_add R p h changed s)"
  by (simp add: step_add_def extends_ok_Return extends_ok_and_then add_host_initiators_ok)

lemma step_remove_ok: "extends_ok s (step_remove R p h changed s)"
  by (simp add: step_remove_def extends_ok_Return extends_ok_and_then remove_host_initiators_ok)

lemma step_flags_ok: "extends_ok s (step_flags R p h changed s)"
  by (simp add: step_flags_def extends_ok_Return extends_ok_and_then modify_host_flags_ok)

lemma step_rename_ok: "extends_ok s (step_rename R p h changed s)"
  by (simp add: step_rename_def extends_ok_Return rename_host_ok)

lemma step_delete_ok: "extends_ok s (step_delete R p h changed s)"
  by (simp add: step_delete_def extends_ok_Return extends_ok_and_then delete_host_ok)

lemma finish_log:
  obtains out ext s' where "finish R p changed s = (out, s')"
    and "log s' = log s @ ext"
    and "\<And>c r. (c, r) \<in> set ext \<Longrightarrow> \<not> is_mutation c"
    and "\<And>m. out \<noteq> Fail_json m"
proof -
  obtain res s1 ext1 where c: "create_result_dict R p changed s = (res, s1)"
    and l1: "log s1 = log s @ ext1" and n1: "\<And>c r. (c, r) \<in> set ext1 \<Longrightarrow> \<not> is_mutation c"
  proof (cases "state p = Absent")
    case True
    then have "create_result_dict R p changed s = ((changed, Empty_dict), s)"
      by (simp add: create_result_dict_def)
    then show ?thesis using that [of _ s "[]"] by simp
  next
    case False
    show ?thesis
    proof (cases "new_name p \<noteq> None \<and> new_name p \<noteq> Some []")
      case True
      show ?thesis
      proof (rule get_host_cases [of R "the (new_name p)" s])
        fix h r s' assume "get_host R (the (new_name p)) s = (h, s')"
          and "log s' = log s @ [(Get_host (the (new_name p)), r)]"
        then show ?thesis
          using that [of _ s' "[(Get_host (the (new_name p)), r)]"] False True
          by (simp add: create_result_dict_def)
      qed
    next
      case nn: False
      show ?thesis
      proof (rule get_host_cases [of R "host_name p" s])
        fix h r s' assume "get_host R (host_name p) s = (h, s')"
          and "log s' = log s @ [(Get_host (host_name p), r)]"
        then show ?thesis
          using that [of _ s' "[(Get_host (host_name p), r)]"] False nn
          by (auto simp: create_result_dict_def)
      qed
    qed
  qed
  show ?thesis
  proof (rule invoke_cases [of R Close_connection s1])
    fix r s2 assume i: "invoke R Close_connection s1 = (r, s2)"
      and l2: "log s2 = log s1 @ [(Close_connection, r)]"
    have l: "log s2 = log s @ (ext1 @ [(Close_connection, r)])"
      using l1 l2 by simp
    have n: "\<not> is_mutation c'" if "(c', r') \<in> set (ext1 @ [(Close_connection, r)])" for c' r'
      using that n1 by auto
    have f: "finish R p changed s =
               ((case r of Raised e \<Rightarrow> Uncaught e | Returned x \<Rightarrow> Return res), s2)"
      using c i by (cases r) (simp_all add: finish_def)
    have ne: "(case r of Raised e \<Rightarrow> Uncaught e | Returned x \<Rightarrow> Return res) \<noteq> Fail_json m"
      for m
      by (cases r) simp_all
    show ?thesis
      by (rule that [OF f l n ne])
  qed
qed

lemma finish_ok: "extends_ok s (finish R p changed s)"
proof (rule finish_log [of R p changed s])
  fix out ext s'
  assume "finish R p changed s = (out, s')" "log s' = log s @ ext"
    "\<And>c r. (c, r) \<in> set ext \<Longrightarrow> \<not> is_mutation c"
  then show ?thesis
    by (auto simp: extends_ok_def fatal_ext_def)
qed

lemma perform_module_operation_ok: "extends_ok s (perform_module_operation R p s)"
  unfolding perform_module_operation_def
  by (intro extends_ok_after_get extends_ok_and_then step_create_ok step_add_ok step_remove_ok
      step_flags_ok step_rename_ok step_delete_ok finish_ok)


lemma failure_msg_names:
  "is_mutation c \<Longrightarrow> msg_names (failure_msg c e) (call_host c) \<and> msg_names (failure_msg c e) e"
proof (cases c)
  case (Create_host n i f)
  have "sublist n (''Create host '' @ n @ '' failed with error '' @ e)"
    by (rule sublist_appendI)
  moreover have "sublist e ((''Create host '' @ n @ '' failed with error '') @ e @ [])"
    by (rule sublist_appendI)
  ultimately show ?thesis
    using Create_host by (simp add: msg_names_def)
qed (simp_all add: msg_names_def)

lemma and_then_Return: "and_then (Return v, s) k = k v s"
  by (simp add: and_then_def)

lemma and_then_Fail: "and_then (Fail_json m, s) k = (Fail_json m, s)"
  by (simp add: and_then_def)

lemma create_initiators_choice:
  "(if initiator_state p = Some Absent_in_host \<or> initiator_state p = None then None
    else initiators p) =
   (if initiator_state p = Some Present_in_host then initiators p else None)"
proof (cases "initiator_state p")
  case None
  then show ?thesis by simp
next
  case (Some a)
  then show ?thesis by (cases a) simp_all
qed

lemma perform_create_run:
  assumes "state p = Present" and "host_name p \<noteq> []"
      and "get_host R (host_name p) s = (None, s0)"
  shows "perform_module_operation R p s =
           and_then (create_host R p (host_name p) s0) (\<lambda>changed s1. finish R p changed s1)"
  by (simp add: perform_module_operation_def assms step_create_def step_add_def step_remove_def
      step_flags_def step_rename_def step_delete_def and_then_Return)

lemma create_run_log:
  assumes "state p = Present" and "host_name p \<noteq> []"
      and "get_host R (host_name p) s = (None, s0)"
  shows "\<exists>r1 rest.
           log (snd (perform_module_operation R p s)) =
             log s0 @ (Create_host (host_name p)
                         (if initiator_state p = Some Present_in_host then initiators p else None)
                         (case host_flags p of
                            Some received_host_flags \<Rightarrow>
                              if received_host_flags \<noteq> []
                              then Some (create_host_flags_dict received_host_flags [])
                              else None
                          | None \<Rightarrow> None), r1) # rest
           \<and> (\<forall>m. fst (perform_module_operation R p s) = Fail_json m \<longrightarrow> (\<exists>e. r1 = Raised e))"
proof -
  define c where "c = Create_host (host_name p)
                         (if initiator_state p = Some Present_in_host then initiators p else None)
                         (case host_flags p of
                            Some received_host_flags \<Rightarrow>
                              if received_host_flags \<noteq> []
                              then Some (create_host_flags_dict received_host_flags [])
                              else None
                          | None \<Rightarrow> None)"
  have cr: "create_host R p (host_name p) s0 =
              (case invoke R c s0 of
                 (Raised e, s') \<Rightarrow>
                   show_error_exit R
                     (Msg_str (''Create host '' @ host_name p @ '' failed with error '' @ e)) s'
               | (Returned x, s') \<Rightarrow> (Return True, s'))"
    by (simp add: create_host_def Let_def c_def create_initiators_choice)
  show ?thesis
    unfolding c_def [symmetric] perform_create_run [OF assms]
  proof (rule invoke_cases [of R c s0])
    fix r s1 assume i: "invoke R c s0 = (r, s1)" and l: "log s1 = log s0 @ [(c, r)]"
    show "\<exists>r1 rest.
           log (snd (and_then (create_host R p (host_name p) s0) (finish R p))) =
             log s0 @ (c, r1) # rest
           \<and> (\<forall>m. fst (and_then (create_host R p (host_name p) s0) (finish R p)) = Fail_json m
                  \<longrightarrow> (\<exists>e. r1 = Raised e))"
    proof (cases r)
      case (Raised e)
      show ?thesis
      proof (rule show_error_exit_cases
          [of R "Msg_str (''Create host '' @ host_name p @ '' failed with error '' @ e)" s1])
        fix r2 s2
        assume x: "show_error_exit R
             (Msg_str (''Create host '' @ host_name p @ '' failed with error '' @ e)) s1 =
             (Fail_json (Msg_str (''Create host '' @ host_name p @ '' failed with error '' @ e))
                :: bool outcome, s2)"
          and l2: "log s2 = log s1 @ [(Close_connection, r2)]"
        have "and_then (create_host R p (host_name p) s0) (finish R p) =
                (Fail_json (Msg_str (''Create host '' @ host_name p @ '' failed with error '' @ e)),
                 s2)"
          by (simp only: cr i Raised x and_then_Fail prod.case reply.case)
        moreover have "log s2 = log s0 @ (c, Raised e) # [(Close_connection, r2)]"
          using l l2 Raised by simp
        ultimately show ?thesis
          by auto
      qed
    next
      case (Returned x)
      show ?thesis
      proof (rule finish_log [of R p True s1])
        fix out ext s'
        assume f: "finish R p True s1 = (out, s')" and l2: "log s' = log s1 @ ext"
          and nf: "\<And>m. out \<noteq> Fail_json m"
        have "and_then (create_host R p (host_name p) s0) (finish R p) = (out, s')"
          by (simp add: cr i Returned and_then_Return f)
        moreover have "log s' = log s0 @ (c, r) # ext"
          using l l2 by simp
        ultimately show ?thesis
          using nf by auto
      qed
    qed
  qed
qed


text \<open>
  Claim C9. Whenever a mutation call (create, add initiators, remove initiators, set
  flags, rename, delete) raises during a run, the run ends in \<^verbatim>\<open>fail_json\<close>
  with that operation's message, the failed call is followed by nothing but the close
  of the connection, and the message names the host and the text of the
  exception.
\<close>

theorem failed_mutation_is_fatal:
  assumes "perform_module_operation R p s = (out, s')"
      and "log s' = log s @ ext"
      and "(c, Raised e) \<in> set ext"
      and "is_mutation c"
  shows "out = Fail_json (failure_msg c e)
         \<and> (\<exists>pre r. ext = pre @ [(c, Raised e), (Close_connection, r)])
         \<and> msg_names (failure_msg c e) (call_host c)
         \<and> msg_names (failure_msg c e) e"
proof -
  from perform_module_operation_ok [of s R p] assms(1)
  obtain ext' where l: "log s' = log s @ ext'" and f: "fatal_ext ext' out"
    by (auto simp: extends_ok_def)
  from l assms(2) have "ext' = ext" by simp
  with f assms(3,4) have "out = Fail_json (failure_msg c e)
         \<and> (\<exists>pre r. ext = pre @ [(c, Raised e), (Close_connection, r)])"
    by (simp add: fatal_ext_def)
  with failure_msg_names [OF assms(4), of e] show ?thesis
    by simp
qed

lemma delete_refused_run:
  "perform_module_operation scripted
     \<lparr>host_name = ''H1'', initiators = None, state = Absent, initiator_state = None,
      host_flags = None, new_name = None\<rparr>
     \<lparr>log = [],
      world = [Returned (Some \<lparr>hostId = ''H1'', initiator = None, enabled_flags = [],
                              disabled_flags = [], consistent_lun = False\<rparr>),
               Raised ''host is in a masking view'']\<rparr> =
   (Fail_json (Msg_tuple [Part_str ''Delete host %s failed with error %s'', Part_str ''H1'',
                          Part_str ''host is in a masking view'']),
    \<lparr>log = [(Get_host ''H1'',
              Returned (Some \<lparr>hostId = ''H1'', initiator = None, enabled_flags = [],
                              disabled_flags = [], consistent_lun = False\<rparr>)),
             (Delete_host ''H1'', Raised ''host is in a masking view''),
             (Close_connection, Returned None)],
     world = []\<rparr>)"
  by (simp add: perform_module_operation_def get_host_def invoke_def step_create_def step_add_def
      step_remove_def step_flags_def step_rename_def step_delete_def delete_host_def
      show_error_exit_def and_then_def)

text \<open>
  A delete that the array refuses because the host is in a masking view.
\<close>

theorem failed_mutation_is_fatal_witness:
  "perform_module_operation scripted
     \<lparr>host_name = ''H1'', initiators = None, state = Absent, initiator_state = None,
      host_flags = None, new_name = None\<rparr>
     \<lparr>log = [],
      world = [Returned (Some \<lparr>hostId = ''H1'', initiator = None, enabled_flags = [],
                              disabled_flags = [], consistent_lun = False\<rparr>),
               Raised ''host is in a masking view'']\<rparr> =
   (Fail_json (failure_msg (Delete_host ''H1'') ''host is in a masking view''),
    \<lparr>log = [(Get_host ''H1'',
              Returned (Some \<lparr>hostId = ''H1'', initiator = None, enabled_flags = [],
                              disabled_flags = [], consistent_lun = False\<rparr>)),
             (Delete_host ''H1'', Raised ''host is in a masking view''),
             (Close_connection, Returned None)],
     world = []\<rparr>)
   \<and> is_mutation (Delete_host ''H1'')
   \<and> msg_names (failure_msg (Delete_host ''H1'') ''host is in a masking view'') ''H1''
   \<and> msg_names (failure_msg (Delete_host ''H1'') ''host is in a masking view'')
        ''host is in a masking view''"
proof -
  have m: "is_mutation (Delete_host ''H1'')"
    by simp
  from failed_mutation_is_fatal [OF delete_refused_run _ _ m,
      of "[(Get_host ''H1'',
              Returned (Some \<lparr>hostId = ''H1'', initiator = None, enabled_flags = [],
                              disabled_flags = [], consistent_lun = False\<rparr>)),
             (Delete_host ''H1'', Raised ''host is in a masking view''),
             (Close_connection, Returned None)]" "''host is in a masking view''"]
  have "msg_names (failure_msg (Delete_host ''H1'') ''host is in a masking view'') ''H1''
        \<and> msg_names (failure_msg (Delete_host ''H1'') ''host is in a masking view'')
             ''host is in a masking view''"
    by simp
  with delete_refused_run m show ?thesis
    by simp
qed

text \<open>
  Claim C7. When the host is not found, the desired existence is Present and the
  name is not empty, the second call of the run is the create call; it carries the
  supplied initiators when \<open>initiator_state\<close> is present-in-host and no initiators
  when it is absent-in-host or not given.
\<close>

theorem create_call_initiators:
  assumes "state p = Present" and "host_name p \<noteq> []"
      and "fst (get_host R (host_name p) s) = None"
  shows "\<exists>r0 r1 rest.
           log (snd (perform_module_operation R p s)) =
             log s @ (Get_host (host_name p), r0)
               # (Create_host (host_name p)
                    (if initiator_state p = Some Present_in_host then initiators p else None)
                    (case host_flags p of
                       Some received_host_flags \<Rightarrow>
                         if received_host_flags \<noteq> []
                         then Some (create_host_flags_dict received_host_flags [])
                         else None
                     | None \<Rightarrow> None), r1) # rest"
proof (rule get_host_cases [of R "host_name p" s])
  fix h r s0
  assume g: "get_host R (host_name p) s = (h, s0)"
    and l: "log s0 = log s @ [(Get_host (host_name p), r)]"
  with assms(3) have g': "get_host R (host_name p) s = (None, s0)"
    by simp
  from create_run_log [OF assms(1,2) g'] l show ?thesis
    by auto
qed


text \<open>
  The scenario of the specification: \<open>H1\<close> with the initiator \<open>iqn.a\<close>,
  present-in-host, on an array without that host.
\<close>

theorem create_call_initiators_witness:
  "state \<lparr>host_name = ''H1'', initiators = Some [''iqn.a''], state = Present,
          initiator_state = Some Present_in_host, host_flags = None, new_name = None\<rparr> = Present
   \<and> fst (get_host scripted ''H1'' \<lparr>log = [], world = [Raised ''not found'']\<rparr>) = None
   \<and> (\<exists>r0 r1 rest.
        log (snd (perform_module_operation scripted
                    \<lparr>host_name = ''H1'', initiators = Some [''iqn.a''], state = Present,
                     initiator_state = Some Present_in_host, host_flags = None,
                     new_name = None\<rparr>
                    \<lparr>log = [], world = [Raised ''not found'']\<rparr>)) =
          (Get_host ''H1'', r0) # (Create_host ''H1'' (Some [''iqn.a'']) None, r1) # rest)"
proof -
  have g: "fst (get_host scripted
                 (host_name \<lparr>host_name = ''H1'', initiators = Some [''iqn.a''], state = Present,
                     initiator_state = Some Present_in_host, host_flags = None,
                     new_name = None\<rparr>)
                 \<lparr>log = [], world = [Raised ''not found'']\<rparr>) = None"
    by (simp add: get_host_def invoke_def)
  from create_call_initiators [OF _ _ g] g show ?thesis
    by simp
qed

text \<open>
  Claim C10. An exception raised by the fetch is swallowed: \<^verbatim>\<open>get_host\<close>
  returns \<open>None\<close>, and with desired existence Present the run continues with the
  create step exactly as it does after a fetch that returned nothing; it ends in
  \<^verbatim>\<open>fail_json\<close> only if the create call itself raises.
\<close>

theorem fetch_failure_is_not_found:
  assumes "R (Get_host (host_name p)) (world s) = (Raised e, w')"
      and "state p = Present" and "host_name p \<noteq> []"
  shows "get_host R (host_name p) s =
           (None, \<lparr>log = log s @ [(Get_host (host_name p), Raised e)], world = w'\<rparr>)
         \<and> perform_module_operation R p s =
             and_then (create_host R p (host_name p)
                         \<lparr>log = log s @ [(Get_host (host_name p), Raised e)], world = w'\<rparr>)
               (finish R p)
         \<and> (R2 (Get_host (host_name p)) (world s) = (Returned None, w') \<longrightarrow>
              perform_module_operation R2 p s =
                and_then (create_host R2 p (host_name p)
                            \<lparr>log = log s @ [(Get_host (host_name p), Returned None)], world = w'\<rparr>)
                  (finish R2 p))
         \<and> (\<exists>i f r1 rest.
              log (snd (perform_module_operation R p s)) =
                log s @ (Get_host (host_name p), Raised e)
                  # (Create_host (host_name p) i f, r1) # rest
              \<and> (\<forall>m. fst (perform_module_operation R p s) = Fail_json m
                     \<longrightarrow> (\<exists>e'. r1 = Raised e')))"
proof -
  have g: "get_host R (host_name p) s =
           (None, \<lparr>log = log s @ [(Get_host (host_name p), Raised e)], world = w'\<rparr>)"
    using assms(1) by (simp add: get_host_def invoke_def)
  have c: "perform_module_operation R2 p s =
                and_then (create_host R2 p (host_name p)
                            \<lparr>log = log s @ [(Get_host (host_name p), Returned None)], world = w'\<rparr>)
                  (finish R2 p)"
    if "R2 (Get_host (host_name p)) (world s) = (Returned None, w')"
  proof (rule perform_create_run [OF assms(2,3)])
    show "get_host R2 (host_name p) s =
            (None, \<lparr>log = log s @ [(Get_host (host_name p), Returned None)], world = w'\<rparr>)"
      using that by (simp add: get_host_def invoke_def)
  qed
  from create_run_log [OF assms(2,3) g]
  have d: "\<exists>i f r1 rest.
              log (snd (perform_module_operation R p s)) =
                log s @ (Get_host (host_name p), Raised e)
                  # (Create_host (host_name p) i f, r1) # rest
              \<and> (\<forall>m. fst (perform_module_operation R p s) = Fail_json m
                     \<longrightarrow> (\<exists>e'. r1 = Raised e'))"
    by auto
  from g perform_create_run [OF assms(2,3) g] c d show ?thesis
    by blast
qed

text \<open>
  A fetch refused for lack of authorization.
\<close>

theorem fetch_failure_is_not_found_witness:
  "scripted (Get_host ''H1'') [Raised ''401 unauthorized''] = (Raised ''401 unauthorized'', [])
   \<and> (\<lambda>c w. (Returned None, tl w)) (Get_host ''H1'') [Raised ''401 unauthorized'']
        = (Returned None, [])
   \<and> get_host scripted ''H1'' \<lparr>log = [], world = [Raised ''401 unauthorized'']\<rparr> =
        (None, \<lparr>log = [(Get_host ''H1'', Raised ''401 unauthorized'')], world = []\<rparr>)
   \<and> perform_module_operation (\<lambda>c w. (Returned None, tl w))
        \<lparr>host_name = ''H1'', initiators = None, state = Present, initiator_state = None,
         host_flags = None, new_name = None\<rparr>
        \<lparr>log = [], world = [Raised ''401 unauthorized'']\<rparr> =
      and_then (create_host (\<lambda>c w. (Returned None, tl w))
                  \<lparr>host_name = ''H1'', initiators = None, state = Present,
                   initiator_state = None, host_flags = None, new_name = None\<rparr> ''H1''
                  \<lparr>log = [(Get_host ''H1'', Returned None)], world = []\<rparr>)
        (finish (\<lambda>c w. (Returned None, tl w))
           \<lparr>host_name = ''H1'', initiators = None, state = Present, initiator_state = None,
            host_flags = None, new_name = None\<rparr>)
   \<and> (\<exists>i f r1 rest.
        log (snd (perform_module_operation scripted
                    \<lparr>host_name = ''H1'', initiators = None, state = Present,
                     initiator_state = None, host_flags = None, new_name = None\<rparr>
                    \<lparr>log = [], world = [Raised ''401 unauthorized'']\<rparr>)) =
          (Get_host ''H1'', Raised ''401 unauthorized'') # (Create_host ''H1'' i f, r1) # rest)"
proof -
  note t = fetch_failure_is_not_found
    [where R = scripted
       and p = "\<lparr>host_name = ''H1'', initiators = None, state = Present, initiator_state = None,
                 host_flags = None, new_name = None\<rparr>"
       and s = "\<lparr>log = [], world = [Raised ''401 unauthorized'']\<rparr>"
       and e = "''401 unauthorized''" and w' = "[]"
       and ?R2.0 = "\<lambda>c w. (Returned None, tl w)"]
  have a: "scripted (Get_host ''H1'') [Raised ''401 unauthorized''] = (Raised ''401 unauthorized'', [])"
    by simp
  from t a show ?thesis
    by auto
qed

text \<open>
  Claim C3 at the input \<open>host_name = H1\<close>, \<open>new_name = H2\<close>, \<open>state = present\<close>
  on an array that has neither host: the run creates \<open>H1\<close>, issues no rename, and
  fetches the final details under \<open>H2\<close>, so the result is \<open>changed = True\<close> with
  \<open>host_details = None\<close>.
\<close>

theorem result_fetched_under_new_name_without_rename:
  "perform_module_operation scripted
     \<lparr>host_name = ''H1'', initiators = None, state = Present, initiator_state = None,
      host_flags = None, new_name = Some ''H2''\<rparr>
     \<lparr>log = [], world = [Raised ''not found'', Returned None, Raised ''not found'']\<rparr> =
   (Return (True, Fetched None),
    \<lparr>log = [(Get_host ''H1'', Raised ''not found''),
             (Create_host ''H1'' None None, Returned None),
             (Get_host ''H2'', Raised ''not found''),
             (Close_connection, Returned None)],
     world = []\<rparr>)"
  by (simp add: perform_module_operation_def get_host_def invoke_def step_create_def step_add_def
      step_remove_def step_flags_def step_rename_def step_delete_def create_host_def
      finish_def create_result_dict_def and_then_def)

end
